theory Spec2Isabelle
  imports Complex_Main "HOL-Library.Char_ord" "HOL-Library.List_Lexorder" "HOL-Library.Multiset"
begin

section \<open>Python values and built-ins used by bot.py\<close>

text \<open>
  Python floats are modelled as real numbers: rounding, overflow, infinities and NaN are
  outside the model. Python ints are unbounded and are modelled as \<open>int\<close>.
  Every exception the modelled code can raise is a subclass of Python's \<open>Exception\<close>,
  so an \<open>except Exception\<close> handler catches every constructor of \<open>py_error\<close>.
\<close>

datatype py_error =
    AttributeError | KeyError | TypeError | ValueError | IndexError | ZeroDivisionError

text \<open>Sequencing: an exception raised by \<open>m\<close> skips the rest of the block.\<close>

definition bind_err :: "py_error + 'a \<Rightarrow> ('a \<Rightarrow> py_error + 'b) \<Rightarrow> py_error + 'b" where
  "bind_err m f = (case m of Inl err \<Rightarrow> Inl err | Inr x \<Rightarrow> f x)"

text \<open>\<open>xs[i]\<close>: a negative index counts from the end; out of range raises IndexError.\<close>

definition py_getitem :: "'a list \<Rightarrow> int \<Rightarrow> py_error + 'a" where
  "py_getitem xs i =
     (if 0 \<le> i \<and> i < int (length xs) then Inr (xs ! nat i)
      else if i < 0 \<and> - int (length xs) \<le> i then Inr (xs ! nat (int (length xs) + i))
      else Inl IndexError)"

text \<open>\<open>xs[start:stop]\<close> (\<open>None\<close> for an omitted bound): bounds are clamped, never an error.\<close>

definition py_slice :: "'a list \<Rightarrow> int option \<Rightarrow> int option \<Rightarrow> 'a list" where
  "py_slice xs start stop =
     (let n = int (length xs);
          lo = (case start of None \<Rightarrow> 0 | Some i \<Rightarrow> if i < 0 then max (n + i) 0 else min i n);
          hi = (case stop of None \<Rightarrow> n | Some j \<Rightarrow> if j < 0 then max (n + j) 0 else min j n)
      in take (nat (hi - lo)) (drop (nat lo) xs))"

text \<open>\<open>a / b\<close> on floats (and on ints, true division).\<close>

definition py_truediv :: "real \<Rightarrow> real \<Rightarrow> py_error + real" where
  "py_truediv a b = (if b = 0 then Inl ZeroDivisionError else Inr (a / b))"

section \<open>Indicator engine\<close>

subsection \<open>ema (bot.py, lines 61-68)\<close>

text \<open>The loop \<open>for x in series[1:]: e = x * k + e * (1 - k)\<close>.\<close>

fun ema_loop :: "real \<Rightarrow> real list \<Rightarrow> real \<Rightarrow> real" where
  "ema_loop k [] e = e"
| "ema_loop k (x # xs) e = ema_loop k xs (x * k + e * (1 - k))"

definition ema :: "real list \<Rightarrow> int \<Rightarrow> py_error + real option" where
  "ema series period =
     (if int (length series) < period then Inr None
      else case py_truediv 2 (of_int (period + 1)) of
             Inl err \<Rightarrow> Inl err
           | Inr k \<Rightarrow>
               (case py_getitem series 0 of
                  Inl err \<Rightarrow> Inl err
                | Inr e \<Rightarrow> Inr (Some (ema_loop k (py_slice series (Some 1) None) e))))"


subsection \<open>calc_vwap (bot.py, lines 70-82)\<close>

text \<open>The loop over \<open>zip(prices, volumes)\<close>, carrying \<open>(cum_pv, cum_v)\<close>.\<close>

fun vwap_loop :: "((real \<times> real \<times> real) \<times> int) list \<Rightarrow> real \<times> int \<Rightarrow> real \<times> int" where
  "vwap_loop [] acc = acc"
| "vwap_loop (((h, l, c), v) # rest) (cum_pv, cum_v) =
     (let typical = (h + l + c) / 3
      in vwap_loop rest (cum_pv + typical * of_int v, cum_v + v))"

text \<open>The final division is guarded by \<open>cum_v == 0\<close>, so it cannot raise.\<close>

definition calc_vwap :: "(real \<times> real \<times> real) list \<Rightarrow> int list \<Rightarrow> real option" where
  "calc_vwap prices volumes =
     (if prices = [] \<or> volumes = [] \<or> length prices \<noteq> length volumes then None
      else case vwap_loop (zip prices volumes) (0, 0) of
             (cum_pv, cum_v) \<Rightarrow> if cum_v = 0 then None else Some (cum_pv / of_int cum_v))"

subsection \<open>volume_spike (bot.py, lines 132-142)\<close>

definition volume_spike :: "int list \<Rightarrow> py_error + (real \<times> int) option" where
  "volume_spike vols =
     (if length vols < 25 then Inr None
      else
        let baseline = of_int (sum_list (py_slice vols (Some (- 25)) (Some (- 5)))) / 20
        in bind_err (py_getitem vols (- 1)) (\<lambda>current.
             if baseline \<le> 0 then Inr None
             else bind_err (py_truediv (of_int current) baseline) (\<lambda>ratio.
                    if ratio \<ge> 2 then Inr (Some (ratio, current)) else Inr None)))"

section \<open>Provider payloads\<close>

text \<open>
  A decoded JSON document, as \<open>aiohttp\<close>'s \<open>r.json()\<close> returns it. A dict is the list of its
  items in iteration order; a decoded dict has no repeated key.
\<close>

datatype json =
    JNull
  | JBool bool
  | JInt int
  | JFloat real
  | JStr string
  | JList "json list"
  | JDict "(string \<times> json) list"

text \<open>Truth value of a Python object (\<open>not x\<close>, \<open>x or y\<close>).\<close>

fun py_truthy :: "json \<Rightarrow> bool" where
  "py_truthy JNull = False"
| "py_truthy (JBool b) = b"
| "py_truthy (JInt i) = (i \<noteq> 0)"
| "py_truthy (JFloat x) = (x \<noteq> 0)"
| "py_truthy (JStr s) = (s \<noteq> [])"
| "py_truthy (JList xs) = (xs \<noteq> [])"
| "py_truthy (JDict kvs) = (kvs \<noteq> [])"

definition py_or :: "json \<Rightarrow> json \<Rightarrow> json" where
  "py_or a b = (if py_truthy a then a else b)"

text \<open>\<open>x.get(key, default)\<close>; \<open>x.get(key)\<close> has the default \<open>None\<close>. Only a dict has \<open>get\<close>.\<close>

fun dict_get :: "json \<Rightarrow> string \<Rightarrow> json \<Rightarrow> py_error + json" where
  "dict_get (JDict kvs) key dflt = (case map_of kvs key of None \<Rightarrow> Inr dflt | Some v \<Rightarrow> Inr v)"
| "dict_get _ key dflt = Inl AttributeError"

text \<open>\<open>x.items()\<close>.\<close>

fun dict_items :: "json \<Rightarrow> py_error + (string \<times> json) list" where
  "dict_items (JDict kvs) = Inr kvs"
| "dict_items _ = Inl AttributeError"

text \<open>\<open>v[key]\<close> with a string key: KeyError on a dict without it, TypeError on anything else.\<close>

fun py_subscript :: "json \<Rightarrow> string \<Rightarrow> py_error + json" where
  "py_subscript (JDict kvs) key = (case map_of kvs key of None \<Rightarrow> Inl KeyError | Some v \<Rightarrow> Inr v)"
| "py_subscript _ key = Inl TypeError"

text \<open>
  \<open>float(v)\<close>. The grammar of float literals belongs to the Python runtime, so the
  conversion of a string is a parameter: \<open>float_of_str s = None\<close> when \<open>float(s)\<close> raises
  ValueError.
\<close>

fun py_float :: "(string \<Rightarrow> real option) \<Rightarrow> json \<Rightarrow> py_error + real" where
  "py_float float_of_str (JStr s) =
     (case float_of_str s of None \<Rightarrow> Inl ValueError | Some x \<Rightarrow> Inr x)"
| "py_float float_of_str (JInt i) = Inr (of_int i)"
| "py_float float_of_str (JFloat x) = Inr x"
| "py_float float_of_str (JBool b) = Inr (if b then 1 else 0)"
| "py_float float_of_str _ = Inl TypeError"

text \<open>\<open>int(x)\<close> on a float truncates towards zero.\<close>

definition py_int_of_float :: "real \<Rightarrow> int" where
  "py_int_of_float x = (if 0 \<le> x then \<lfloor>x\<rfloor> else \<lceil>x\<rceil>)"



section \<open>Bar series parser: parse_intraday (bot.py, lines 108-130)\<close>

text \<open>One pass of the loop body: \<open>(close, high, low, vol)\<close> of a bar, in the source's order.\<close>

definition parse_bar :: "(string \<Rightarrow> real option) \<Rightarrow> json \<Rightarrow> py_error + (real \<times> real \<times> real \<times> int)" where
  "parse_bar float_of_str v =
     bind_err (bind_err (py_subscript v ''4. close'') (py_float float_of_str)) (\<lambda>close.
     bind_err (bind_err (py_subscript v ''2. high'') (py_float float_of_str)) (\<lambda>high.
     bind_err (bind_err (py_subscript v ''3. low'') (py_float float_of_str)) (\<lambda>low.
     bind_err (bind_err (py_subscript v ''5. volume'') (py_float float_of_str)) (\<lambda>f.
     Inr (close, high, low, py_int_of_float f)))))"

text \<open>The loop \<open>for _, v in items\<close>, carrying \<open>(closes, hlc, vols)\<close>.\<close>

fun parse_bars ::
  "(string \<Rightarrow> real option) \<Rightarrow> (string \<times> json) list \<Rightarrow>
   real list \<times> (real \<times> real \<times> real) list \<times> int list \<Rightarrow>
   py_error + (real list \<times> (real \<times> real \<times> real) list \<times> int list)" where
  "parse_bars float_of_str [] acc = Inr acc"
| "parse_bars float_of_str ((t, v) # items) (closes, hlc, vols) =
     bind_err (parse_bar float_of_str v) (\<lambda>(close, high, low, vol).
       parse_bars float_of_str items (closes @ [close], hlc @ [(high, low, close)], vols @ [vol]))"

type_synonym parsed = "real list \<times> (real \<times> real \<times> real) list \<times> int list \<times> real"

text \<open>
  The body of the \<open>try\<close> block. \<open>sorted\<close> compares the keys, which are strings, by code
  point; the lexicographic order on UTF-8 bytes is the same order.
\<close>

definition parse_intraday_try :: "(string \<Rightarrow> real option) \<Rightarrow> json \<Rightarrow> py_error + parsed option" where
  "parse_intraday_try float_of_str series_json =
     bind_err (dict_get series_json ''Time Series (1min)'' JNull) (\<lambda>g.
       let ts = py_or g (JDict [])
       in if \<not> py_truthy ts then Inr None
          else bind_err (dict_items ts) (\<lambda>kvs.
                 let items = sort_key fst kvs
                 in bind_err (parse_bars float_of_str items ([], [], [])) (\<lambda>(closes, hlc, vols).
                    bind_err (py_getitem closes (- 1)) (\<lambda>last_close.
                    Inr (Some (closes, hlc, vols, last_close))))))"

text \<open>\<open>except Exception: return None\<close>.\<close>

definition parse_intraday :: "(string \<Rightarrow> real option) \<Rightarrow> json \<Rightarrow> py_error + parsed option" where
  "parse_intraday float_of_str series_json =
     (case parse_intraday_try float_of_str series_json of
        Inl err \<Rightarrow> Inr None
      | Inr r \<Rightarrow> Inr r)"

text \<open>A bar as the provider delivers it, every field a string.\<close>

definition bar :: "string \<Rightarrow> string \<Rightarrow> string \<Rightarrow> string \<Rightarrow> json" where
  "bar high low close vol =
     JDict [(''2. high'', JStr high), (''3. low'', JStr low), (''4. close'', JStr close),
            (''5. volume'', JStr vol)]"

section \<open>Options-flow summarizer: polygon_options_flow (bot.py, lines 170-189)\<close>









section \<open>News deduplicator: get_news and news_loop (bot.py, lines 144-165, 257-277)\<close>

text \<open>
  A feed item as the provider delivers it: string fields that may be absent;
  \<open>r_ticker_sentiment\<close> holds \<open>t.get("ticker")\<close> of each entry.
\<close>

record raw_item =
  r_uuid :: "string option"
  r_url :: "string option"
  r_title :: "string option"
  r_ticker_sentiment :: "string option list"

record news_item =
  n_id :: string
  n_headline :: string
  n_url :: "string option"
  n_tickers :: "string list"

text \<open>\<open>a or b\<close> on optional strings: \<open>None\<close> and the empty string are false.\<close>

definition str_or :: "string option \<Rightarrow> string option \<Rightarrow> string option" where
  "str_or a b = (if a \<noteq> None \<and> a \<noteq> Some [] then a else b)"

text \<open>The loop \<open>for item in feed\<close> of \<open>get_news\<close>, carrying \<open>news\<close>; it reads the seen-set only.\<close>

fun get_news_loop :: "string set \<Rightarrow> raw_item list \<Rightarrow> news_item list \<Rightarrow> news_item list" where
  "get_news_loop posted [] news = news"
| "get_news_loop posted (item # feed) news =
     (case str_or (r_uuid item) (r_url item) of
        None \<Rightarrow> get_news_loop posted feed news
      | Some uid \<Rightarrow>
          if uid = [] \<or> uid \<in> posted then get_news_loop posted feed news
          else
            let headline = the (str_or (r_title item) (Some ''News''));
                tickers = map the (filter (\<lambda>t. t \<noteq> None \<and> t \<noteq> Some []) (r_ticker_sentiment item))
            in get_news_loop posted feed
                 (news @ [\<lparr>n_id = uid, n_headline = headline, n_url = r_url item, n_tickers = tickers\<rparr>]))"

definition get_news :: "string set \<Rightarrow> raw_item list \<Rightarrow> news_item list" where
  "get_news posted feed = py_slice (get_news_loop posted feed []) None (Some 10)"

text \<open>
  The process-wide state of the news path: the seen-set \<open>posted_news_ids\<close> and the items
  handed to \<open>ch.send\<close> so far, in order (a failed send is logged and swallowed).
\<close>

record bot_state =
  posted_news_ids :: "string set"
  sent :: "news_item list"

text \<open>The loop \<open>for n in news\<close> of \<open>news_loop\<close>.\<close>

fun publish_loop :: "news_item list \<Rightarrow> bot_state \<Rightarrow> bot_state" where
  "publish_loop [] s = s"
| "publish_loop (n # ns) s =
     publish_loop ns
       (s\<lparr>posted_news_ids := insert (n_id n) (posted_news_ids s), sent := sent s @ [n]\<rparr>)"

text \<open>One news cycle on the feed fetched in it.\<close>

definition news_loop :: "bot_state \<Rightarrow> raw_item list \<Rightarrow> bot_state" where
  "news_loop s feed =
     (let news = get_news (posted_news_ids s) feed
      in if news = [] then s else publish_loop news s)"

text \<open>The cycles of a process run one after the other, each on its own feed.\<close>

fun news_cycles :: "bot_state \<Rightarrow> raw_item list list \<Rightarrow> bot_state" where
  "news_cycles s [] = s"
| "news_cycles s (feed # feeds) = news_cycles (news_loop s feed) feeds"

text \<open>A feed item that carries a url only, and the item \<open>get_news\<close> makes of it.\<close>

definition url_item :: "string \<Rightarrow> raw_item" where
  "url_item u = \<lparr>r_uuid = None, r_url = Some u, r_title = None, r_ticker_sentiment = []\<rparr>"

definition url_news :: "string \<Rightarrow> news_item" where
  "url_news u = \<lparr>n_id = u, n_headline = ''News'', n_url = Some u, n_tickers = []\<rparr>"

section \<open>Price cycle: indicator annotations (bot.py, lines 227-229 and 237-242)\<close>

text \<open>Truth value of an \<open>Optional[float]\<close>: \<open>None\<close> and zero are false.\<close>

definition float_truthy :: "real option \<Rightarrow> bool" where
  "float_truthy v = (case v of None \<Rightarrow> False | Some x \<Rightarrow> x \<noteq> 0)"

text \<open>The UTF-8 bytes of the bullet and of the two arrows.\<close>

definition bullet :: string where
  "bullet = [CHR 0xE2, CHR 0x80, CHR 0xA2]"

definition arrow_up :: string where
  "arrow_up = [CHR 0xE2, CHR 0x86, CHR 0x91]"

definition arrow_down :: string where
  "arrow_down = [CHR 0xE2, CHR 0x86, CHR 0x93]"

text \<open>\<open>fmt2\<close> is the format \<open>{:.2f}\<close> of the Python runtime.\<close>

definition ema_txt :: "(real \<Rightarrow> string) \<Rightarrow> real option \<Rightarrow> real option \<Rightarrow> string" where
  "ema_txt fmt2 ema9 ema21 =
     (if float_truthy ema9 \<and> float_truthy ema21
      then let trend = (if the ema9 > the ema21 then arrow_up else arrow_down)
           in '' '' @ bullet @ '' EMA9/21: '' @ fmt2 (the ema9) @ ''/'' @ fmt2 (the ema21) @ '' '' @ trend
      else [])"

definition vwap_txt :: "(real \<Rightarrow> string) \<Rightarrow> real option \<Rightarrow> string" where
  "vwap_txt fmt2 vwap_val =
     (if float_truthy vwap_val then '' '' @ bullet @ '' VWAP: '' @ fmt2 (the vwap_val) else [])"

text \<open>The two annotations of one symbol's message, from the parsed series.\<close>

definition indicator_txt ::
  "(real \<Rightarrow> string) \<Rightarrow> real list \<Rightarrow> (real \<times> real \<times> real) list \<Rightarrow> int list \<Rightarrow> py_error + string \<times> string" where
  "indicator_txt fmt2 closes hlc vols =
     bind_err (ema (py_slice closes (Some (- 50)) None) 9) (\<lambda>ema9.
     bind_err (ema (py_slice closes (Some (- 50)) None) 21) (\<lambda>ema21.
       let vwap_val = calc_vwap (py_slice hlc (Some (- 120)) None) (py_slice vols (Some (- 120)) None)
       in Inr (ema_txt fmt2 ema9 ema21, vwap_txt fmt2 vwap_val)))"

section \<open>Properties of the indicator engine\<close>

subsection \<open>ema\<close>








subsection \<open>volume_spike\<close>

lemma py_slice_baseline:
  "25 \<le> length vols \<Longrightarrow>
   py_slice vols (Some (- 25)) (Some (- 5)) = take 20 (drop (length vols - 25) vols)"
  by (simp add: py_slice_def Let_def max_def nat_diff_distrib)

lemma sum_list_window:
  "n + m \<le> length xs \<Longrightarrow> sum_list (take m (drop n xs)) = (\<Sum>i<m. (xs ! (n + i) :: int))"
proof -
  assume "n + m \<le> length xs"
  then have "min (length xs - n) m = m" by simp
  then show ?thesis by (simp add: sum_list_sum_nth atLeast0LessThan)
qed

lemma py_getitem_last: "xs \<noteq> [] \<Longrightarrow> py_getitem xs (- 1) = Inr (last xs)"
  by (cases xs rule: rev_cases) (simp_all add: py_getitem_def nth_append)

lemma volume_spike_eq:
  "volume_spike vols =
     Inr (if length vols < 25 then None
          else let baseline = of_int (\<Sum>i<20. vols ! (length vols - 25 + i)) / 20;
                   ratio = of_int (last vols) / baseline
               in if baseline \<le> 0 then None
                  else if ratio \<ge> 2 then Some (ratio, last vols) else None)"
proof (cases "length vols < 25")
  case True
  then show ?thesis by (simp add: volume_spike_def)
next
  case False
  then have len: "25 \<le> length vols" and ne: "vols \<noteq> []" by auto
  have s: "sum_list (py_slice vols (Some (- 25)) (Some (- 5))) =
           (\<Sum>i<20. vols ! (length vols - 25 + i))"
    using len by (simp add: py_slice_baseline sum_list_window)
  show ?thesis
    using False ne unfolding volume_spike_def s
    by (simp add: py_getitem_last bind_err_def py_truediv_def Let_def)
qed

lemma volume_spike_example:
  assumes "length base = 20" "sum_list base = 200"
  shows "volume_spike (base @ [10, 10, 10, 10, 200]) = Inr (Some (20, 200))"
    and "volume_spike (base @ [10, 10, 10, 10, 15]) = Inr None"
proof -
  have a: "py_slice (base @ xs) (Some (- 25)) (Some (- 5)) = base"
    if "length xs = 5" for xs :: "int list"
    using assms(1) that by (simp add: py_slice_def)
  show "volume_spike (base @ [10, 10, 10, 10, 200]) = Inr (Some (20, 200))"
    using assms
    by (simp add: volume_spike_def a py_getitem_def bind_err_def py_truediv_def nth_append)
  show "volume_spike (base @ [10, 10, 10, 10, 15]) = Inr None"
    using assms
    by (simp add: volume_spike_def a py_getitem_def bind_err_def py_truediv_def nth_append)
qed

text \<open>
  Claim C2. \<open>volume_spike\<close> never raises. It returns \<open>None\<close> when there are fewer than 25
  samples or when the baseline, the mean of the 20 samples at positions
  \<open>len - 25 .. len - 6\<close>, is not positive; otherwise it returns \<open>(ratio, vols[-1])\<close> with
  \<open>ratio = vols[-1] / baseline\<close> exactly when \<open>ratio \<ge> 2\<close>, and \<open>None\<close> otherwise. With 20
  baseline samples that average 10, followed by \<open>[10, 10, 10, 10, 200]\<close>, it fires with
  ratio 20; with 15 as the current volume it does not fire.
\<close>

theorem volume_spike_spec:
  "volume_spike vols =
     Inr (if length vols < 25 then None
          else let baseline = of_int (\<Sum>i<20. vols ! (length vols - 25 + i)) / 20;
                   ratio = of_int (last vols) / baseline
               in if baseline \<le> 0 then None
                  else if ratio \<ge> 2 then Some (ratio, last vols) else None) \<and>
   (\<forall>base. length base = 20 \<and> sum_list base = 200 \<longrightarrow>
      volume_spike (base @ [10, 10, 10, 10, 200]) = Inr (Some (20, 200)) \<and>
      volume_spike (base @ [10, 10, 10, 10, 15]) = Inr None)"
  using volume_spike_eq volume_spike_example by blast

theorem volume_spike_spec_witness:
  "length [5, 15, 5, 15, 5, 15, 5, 15, 5, 15, 5, 15, 5, 15, 5, 15, 5, 15, 5, 15 :: int] = 20 \<and>
   sum_list [5, 15, 5, 15, 5, 15, 5, 15, 5, 15, 5, 15, 5, 15, 5, 15, 5, 15, 5, 15 :: int] = 200 \<and>
   volume_spike ([5, 15, 5, 15, 5, 15, 5, 15, 5, 15, 5, 15, 5, 15, 5, 15, 5, 15, 5, 15]
                 @ [10, 10, 10, 10, 200]) = Inr (Some (20, 200)) \<and>
   volume_spike ([5, 15, 5, 15, 5, 15, 5, 15, 5, 15, 5, 15, 5, 15, 5, 15, 5, 15, 5, 15]
                 @ [10, 10, 10, 10, 15]) = Inr None"
proof -
  let ?b = "[5, 15, 5, 15, 5, 15, 5, 15, 5, 15, 5, 15, 5, 15, 5, 15, 5, 15, 5, 15 :: int]"
  have h: "length ?b = 20 \<and> sum_list ?b = 200" by simp
  have "length ?b = 20 \<and> sum_list ?b = 200 \<longrightarrow>
          volume_spike (?b @ [10, 10, 10, 10, 200]) = Inr (Some (20, 200)) \<and>
          volume_spike (?b @ [10, 10, 10, 10, 15]) = Inr None"
    using volume_spike_spec [of "[]"] by blast
  with h show ?thesis by blast
qed


subsection \<open>calc_vwap\<close>

lemma vwap_loop_sum:
  "length ps = length vs \<Longrightarrow>
   vwap_loop (zip ps vs) (pv, v) =
     (pv + (\<Sum>i<length ps. (case ps ! i of (h, l, c) \<Rightarrow> (h + l + c) / 3) * of_int (vs ! i)),
      v + sum_list vs)"
proof (induction ps vs arbitrary: pv v rule: list_induct2)
  case Nil
  then show ?case by simp
next
  case (Cons p ps x vs)
  obtain h l c where p: "p = (h, l, c)" by (cases p)
  show ?case
    by (simp add: p Cons.IH Let_def lessThan_Suc_eq_insert_0 sum.reindex algebra_simps)
qed

text \<open>
  Claim C5. \<open>calc_vwap\<close> returns \<open>None\<close> if either list is empty, the lengths differ or the
  volumes sum to zero; otherwise it returns the sum of \<open>typical\<^sub>i * volume\<^sub>i\<close> divided by the
  sum of the volumes, with \<open>typical\<^sub>i = (high\<^sub>i + low\<^sub>i + close\<^sub>i) / 3\<close>. Bars
  \<open>[(10, 8, 9), (12, 10, 11)]\<close> with volumes \<open>[100, 300]\<close> give 10.5.
\<close>

theorem calc_vwap_spec:
  "calc_vwap prices volumes =
     (if prices = [] \<or> volumes = [] \<or> sum_list volumes = 0 \<or> length prices \<noteq> length volumes
      then None
      else Some ((\<Sum>i<length prices.
                    (case prices ! i of (h, l, c) \<Rightarrow> (h + l + c) / 3) * of_int (volumes ! i))
                 / of_int (sum_list volumes))) \<and>
   calc_vwap [(10, 8, 9), (12, 10, 11)] [100, 300] = Some ((9 * 100 + 11 * 300) / 400) \<and>
   (9 * 100 + 11 * 300) / 400 = (10.5 :: real)"
  by (auto simp: calc_vwap_def vwap_loop_sum)

theorem calc_vwap_spec_witness:
  "calc_vwap [(3, 1, 2), (6, 4, 5)] [5, - 5] = None \<and>
   calc_vwap [(3, 1, 2), (6, 4, 5)] [1, 3] = Some (17 / 4)"
  using calc_vwap_spec [of "[(3, 1, 2), (6, 4, 5)]" "[5, - 5]"]
    calc_vwap_spec [of "[(3, 1, 2), (6, 4, 5)]" "[1, 3]"]
  by (simp add: lessThan_Suc numeral_2_eq_2)

section \<open>Properties of the price cycle\<close>

lemma ema_no_raise: "0 < period \<Longrightarrow> \<exists>r. ema series period = Inr r"
  by (cases series) (auto simp: ema_def py_truediv_def py_getitem_def)

lemma ema_txt_zero:
  "ema_txt fmt2 (Some 0) y = []" "ema_txt fmt2 x (Some 0) = []"
  "ema_txt fmt2 None y = []" "ema_txt fmt2 x None = []"
  by (simp_all add: ema_txt_def float_truthy_def)

lemma vwap_txt_zero: "vwap_txt fmt2 (Some 0) = []" "vwap_txt fmt2 None = []"
  by (simp_all add: vwap_txt_def float_truthy_def)

lemma ema_txt_empty_iff:
  "ema_txt fmt2 x y = [] \<longleftrightarrow> x = None \<or> x = Some 0 \<or> y = None \<or> y = Some 0"
  by (auto simp: ema_txt_def float_truthy_def Let_def split: option.splits)

lemma vwap_txt_empty_iff: "vwap_txt fmt2 v = [] \<longleftrightarrow> v = None \<or> v = Some 0"
  by (auto simp: vwap_txt_def float_truthy_def split: option.splits)

text \<open>
  Claim C10. The price cycle tests its indicators for truth, not for \<open>None\<close>. When both
  EMAs over the last 50 closes were computed and one of them is exactly zero, the EMA
  annotation is the empty string; when \<open>calc_vwap\<close> over the last 120 bars returns exactly
  zero, the VWAP annotation is the empty string. An annotation is empty exactly when a value
  it needs is \<open>None\<close> or zero, so a computed zero reads as insufficient data.
\<close>

theorem zero_indicator_omitted:
  "(ema (py_slice closes (Some (- 50)) None) 9 = Inr (Some a) \<and>
    ema (py_slice closes (Some (- 50)) None) 21 = Inr (Some b) \<and> (a = 0 \<or> b = 0) \<longrightarrow>
      (\<exists>v. indicator_txt fmt2 closes hlc vols = Inr ([], v))) \<and>
   (calc_vwap (py_slice hlc (Some (- 120)) None) (py_slice vols (Some (- 120)) None) = Some 0 \<longrightarrow>
      (\<exists>e. indicator_txt fmt2 closes hlc vols = Inr (e, []))) \<and>
   (ema_txt fmt2 x y = [] \<longleftrightarrow> x = None \<or> x = Some 0 \<or> y = None \<or> y = Some 0) \<and>
   (vwap_txt fmt2 v = [] \<longleftrightarrow> v = None \<or> v = Some 0)"
proof (intro conjI impI)
  assume "ema (py_slice closes (Some (- 50)) None) 9 = Inr (Some a) \<and>
    ema (py_slice closes (Some (- 50)) None) 21 = Inr (Some b) \<and> (a = 0 \<or> b = 0)"
  then show "\<exists>v. indicator_txt fmt2 closes hlc vols = Inr ([], v)"
    by (auto simp: indicator_txt_def bind_err_def ema_txt_zero)
next
  obtain r9 r21 where r: "ema (py_slice closes (Some (- 50)) None) 9 = Inr r9"
      "ema (py_slice closes (Some (- 50)) None) 21 = Inr r21"
    using ema_no_raise[of 9] ema_no_raise[of 21] by (metis zero_less_numeral)
  assume "calc_vwap (py_slice hlc (Some (- 120)) None) (py_slice vols (Some (- 120)) None) = Some 0"
  then show "\<exists>e. indicator_txt fmt2 closes hlc vols = Inr (e, [])"
    by (simp add: indicator_txt_def bind_err_def r vwap_txt_zero)
qed (simp_all only: ema_txt_empty_iff vwap_txt_empty_iff)

lemma ema_loop_zeros: "ema_loop k (replicate n 0) 0 = 0"
  by (induction n) simp_all

lemma ema_zeros: "0 < period \<Longrightarrow> period \<le> int n \<Longrightarrow> ema (replicate n 0) period = Inr (Some 0)"
  by (cases n) (auto simp: ema_def py_truediv_def py_getitem_def py_slice_def ema_loop_zeros)

theorem zero_indicator_omitted_witness:
  "ema (py_slice (replicate 21 0) (Some (- 50)) None) 9 = Inr (Some 0) \<and>
   ema (py_slice (replicate 21 0) (Some (- 50)) None) 21 = Inr (Some 0) \<and>
   calc_vwap (py_slice [(0, 0, 0), (0, 0, 0)] (Some (- 120)) None)
     (py_slice [7, 9] (Some (- 120)) None) = Some 0 \<and>
   indicator_txt (\<lambda>x. ''0.00'') (replicate 21 0) [(0, 0, 0), (0, 0, 0)] [7, 9] = Inr ([], []) \<and>
   indicator_txt (\<lambda>x. ''0.00'') [] [] [] = Inr ([], [])"
proof -
  let ?c = "replicate 21 (0::real)" and ?h = "[(0, 0, 0), (0, 0, 0)] :: (real \<times> real \<times> real) list"
  let ?v = "[7, 9] :: int list"
  have e9: "ema (py_slice ?c (Some (- 50)) None) 9 = Inr (Some 0)"
    and e21: "ema (py_slice ?c (Some (- 50)) None) 21 = Inr (Some 0)"
    by (simp_all add: py_slice_def ema_zeros)
  have vw: "calc_vwap (py_slice ?h (Some (- 120)) None) (py_slice ?v (Some (- 120)) None) = Some 0"
    by (simp add: py_slice_def calc_vwap_def)
  from zero_indicator_omitted [of ?c 0 0 "\<lambda>x. ''0.00''" ?h ?v] e9 e21 vw
  obtain v e where "indicator_txt (\<lambda>x. ''0.00'') ?c ?h ?v = Inr ([], v)"
    and "indicator_txt (\<lambda>x. ''0.00'') ?c ?h ?v = Inr (e, [])"
    by blast
  then have "indicator_txt (\<lambda>x. ''0.00'') ?c ?h ?v = Inr ([], [])"
    by simp
  moreover have "indicator_txt (\<lambda>x. ''0.00'') [] [] [] = Inr ([], [])"
    by (simp add: indicator_txt_def bind_err_def ema_def py_slice_def calc_vwap_def ema_txt_zero vwap_txt_zero)
  ultimately show ?thesis using e9 e21 vw by simp
qed


section \<open>Properties of the news deduplicator\<close>

lemma py_slice_upto_10: "py_slice xs None (Some 10) = take 10 xs"
  by (simp add: py_slice_def Let_def min_def) 

lemma get_news_loop_acc:
  "get_news_loop posted feed news = news @ get_news_loop posted feed []"
proof (induction feed arbitrary: news)
  case Nil
  then show ?case by simp
next
  case (Cons item feed)
  show ?case
  proof (cases "str_or (r_uuid item) (r_url item)")
    case None
    then show ?thesis using Cons.IH[of news] by simp
  next
    case (Some uid)
    show ?thesis
    proof (cases "uid = [] \<or> uid \<in> posted")
      case True
      then show ?thesis using Some Cons.IH[of news] by simp
    next
      case False
      then show ?thesis
        using Some Cons.IH[of "news @ [x]" for x] Cons.IH[of "[x]" for x]
        by (simp add: Let_def)
    qed
  qed
qed

lemma get_news_loop_append:
  "get_news_loop posted (a @ b) [] = get_news_loop posted a [] @ get_news_loop posted b []"
proof (induction a)
  case Nil
  then show ?case by simp
next
  case (Cons item a)
  then show ?case
    using get_news_loop_acc[of posted a "[x]" for x] get_news_loop_acc[of posted "a @ b" "[x]" for x]
    by (simp add: Let_def split: option.splits)
qed



lemma get_news_loop_origin:
  "n \<in> set (get_news_loop posted feed []) \<Longrightarrow>
   n_id n \<notin> posted \<and> n_id n \<noteq> [] \<and>
   (\<exists>item \<in> set feed. str_or (r_uuid item) (r_url item) = Some (n_id n))"
proof (induction feed)
  case Nil
  then show ?case by simp
next
  case (Cons item feed)
  have "get_news_loop posted (item # feed) [] =
        get_news_loop posted [item] [] @ get_news_loop posted feed []"
    using get_news_loop_append[of posted "[item]" feed] by simp
  with Cons.prems consider "n \<in> set (get_news_loop posted [item] [])"
    | "n \<in> set (get_news_loop posted feed [])" by auto
  then show ?case
  proof cases
    case 1
    then show ?thesis
      by (auto simp: Let_def split: option.splits if_splits)
  next
    case 2
    with Cons.IH show ?thesis by auto
  qed
qed

lemma publish_loop_eq:
  "publish_loop news s =
     s\<lparr>posted_news_ids := posted_news_ids s \<union> n_id ` set news, sent := sent s @ news\<rparr>"
  by (induction news arbitrary: s) simp_all

lemma news_loop_eq:
  "news_loop s feed =
     s\<lparr>posted_news_ids := posted_news_ids s \<union> n_id ` set (get_news (posted_news_ids s) feed),
       sent := sent s @ get_news (posted_news_ids s) feed\<rparr>"
  by (simp add: news_loop_def Let_def publish_loop_eq)

lemma get_news_loop_source:
  "n \<in> set (get_news_loop posted feed []) \<Longrightarrow>
   \<exists>item \<in> set feed. \<forall>posted'. n_id n \<notin> posted' \<longrightarrow> get_news_loop posted' [item] [] = [n]"
proof (induction feed)
  case Nil
  then show ?case by simp
next
  case (Cons item feed)
  have "get_news_loop posted (item # feed) [] =
        get_news_loop posted [item] [] @ get_news_loop posted feed []"
    using get_news_loop_append[of posted "[item]" feed] by simp
  with Cons.prems consider "n \<in> set (get_news_loop posted [item] [])"
    | "n \<in> set (get_news_loop posted feed [])" by auto
  then show ?case
  proof cases
    case 1
    then have "\<forall>posted'. n_id n \<notin> posted' \<longrightarrow> get_news_loop posted' [item] [] = [n]"
      by (auto simp: Let_def split: option.splits if_splits)
    then show ?thesis by auto
  next
    case 2
    with Cons.IH show ?thesis by auto
  qed
qed

lemma get_news_length: "length (get_news posted feed) \<le> 10"
  by (simp add: get_news_def py_slice_upto_10)

lemma get_news_unseen: "n \<in> set (get_news posted feed) \<Longrightarrow> n_id n \<notin> posted"
  using get_news_loop_origin[of n posted feed]
  by (auto simp: get_news_def py_slice_upto_10 dest: in_set_takeD)

text \<open>
  Claim C3. A cycle returns and publishes at most 10 items, none of them seen before. The
  seen-set after the cycle is the old one plus the identifiers of the published items:
  \<open>get_news\<close> marks nothing, and \<open>news_loop\<close> marks an item as it publishes it. An item
  is identified by its identifier, so an item beyond the cut after 10 is one whose
  identifier no published item carries: it stays unseen, and feeding its source item again
  in a later cycle returns it.
\<close>

theorem truncation_leaves_surplus_unseen:
  "let posted = posted_news_ids s; news = get_news posted feed; s' = news_loop s feed
   in length news \<le> 10 \<and> (\<forall>n \<in> set news. n_id n \<notin> posted) \<and>
      sent s' = sent s @ news \<and>
      posted_news_ids s' = posted \<union> n_id ` set news \<and>
      (\<forall>n \<in> set (drop 10 (get_news_loop posted feed [])).
         n_id n \<notin> n_id ` set news \<longrightarrow>
           n_id n \<notin> posted_news_ids s' \<and>
           (\<exists>item \<in> set feed. get_news (posted_news_ids s') [item] = [n]))"
proof -
  let ?p = "posted_news_ids s"
  let ?news = "get_news ?p feed"
  let ?s' = "news_loop s feed"
  have p': "posted_news_ids ?s' = ?p \<union> n_id ` set ?news" and sent': "sent ?s' = sent s @ ?news"
    by (simp_all add: news_loop_eq)
  have surplus: "n_id n \<notin> posted_news_ids ?s' \<and>
      (\<exists>item \<in> set feed. get_news (posted_news_ids ?s') [item] = [n])"
    if n: "n \<in> set (drop 10 (get_news_loop ?p feed []))" and fresh: "n_id n \<notin> n_id ` set ?news" for n
  proof -
    from n have mem: "n \<in> set (get_news_loop ?p feed [])" by (rule in_set_dropD)
    with get_news_loop_origin[OF mem] fresh have unseen: "n_id n \<notin> posted_news_ids ?s'"
      by (simp add: p')
    from get_news_loop_source[OF mem] obtain item where i: "item \<in> set feed"
      and g: "get_news_loop (posted_news_ids ?s') [item] [] = [n]"
      using unseen by blast
    have "get_news (posted_news_ids ?s') [item] = [n]"
      by (simp del: get_news_loop.simps add: get_news_def py_slice_upto_10 g)
    with i have "\<exists>item \<in> set feed. get_news (posted_news_ids ?s') [item] = [n]"
      by blast
    with unseen show ?thesis by simp
  qed
  show ?thesis
    unfolding Let_def using get_news_length get_news_unseen p' sent' surplus by blast
qed

lemma get_news_loop_url_item:
  "get_news_loop posted [url_item u] [] = (if u \<noteq> [] \<and> u \<notin> posted then [url_news u] else [])"
  by (simp add: url_item_def url_news_def str_or_def)

lemma get_news_loop_url_items:
  "get_news_loop posted (map url_item us) [] =
     map url_news (filter (\<lambda>u. u \<noteq> [] \<and> u \<notin> posted) us)"
proof (induction us)
  case Nil
  then show ?case by simp
next
  case (Cons u us)
  have "get_news_loop posted (map url_item (u # us)) [] =
        get_news_loop posted ([url_item u] @ map url_item us) []"
    by simp
  also have "\<dots> = get_news_loop posted [url_item u] [] @ get_news_loop posted (map url_item us) []"
    by (rule get_news_loop_append)
  finally show ?case
    by (simp only: get_news_loop_url_item Cons.IH) simp
qed


theorem truncation_leaves_surplus_unseen_witness:
  "get_news {} (map url_item [''a'', ''b'', ''c'', ''d'', ''e'', ''f'', ''g'', ''h'', ''i'', ''j'', ''k''])
     = map url_news [''a'', ''b'', ''c'', ''d'', ''e'', ''f'', ''g'', ''h'', ''i'', ''j''] \<and>
   ''k'' \<notin> posted_news_ids (news_loop \<lparr>posted_news_ids = {}, sent = []\<rparr>
      (map url_item [''a'', ''b'', ''c'', ''d'', ''e'', ''f'', ''g'', ''h'', ''i'', ''j'', ''k''])) \<and>
   get_news (posted_news_ids (news_loop \<lparr>posted_news_ids = {}, sent = []\<rparr>
      (map url_item [''a'', ''b'', ''c'', ''d'', ''e'', ''f'', ''g'', ''h'', ''i'', ''j'', ''k''])))
     [url_item ''k''] = [url_news ''k'']"
proof -
  let ?us = "[''a'', ''b'', ''c'', ''d'', ''e'', ''f'', ''g'', ''h'', ''i'', ''j'', ''k'']"
  let ?s = "\<lparr>posted_news_ids = {}, sent = []\<rparr>"
  have all: "get_news_loop {} (map url_item ?us) [] = map url_news ?us"
    by (simp only: get_news_loop_url_items) simp
  have news: "get_news {} (map url_item ?us) =
              map url_news [''a'', ''b'', ''c'', ''d'', ''e'', ''f'', ''g'', ''h'', ''i'', ''j'']"
    by (simp only: get_news_def py_slice_upto_10 all) simp
  have k: "url_news ''k'' \<in> set (drop 10 (get_news_loop (posted_news_ids ?s) (map url_item ?us) []))"
    by (simp only: bot_state.simps all) simp
  have fresh: "n_id (url_news ''k'') \<notin> n_id ` set (get_news (posted_news_ids ?s) (map url_item ?us))"
    by (simp only: bot_state.simps news) (simp add: url_news_def)
  from truncation_leaves_surplus_unseen [of ?s "map url_item ?us"] k fresh
  have unseen: "n_id (url_news ''k'') \<notin> posted_news_ids (news_loop ?s (map url_item ?us))"
    and "\<exists>item \<in> set (map url_item ?us).
           get_news (posted_news_ids (news_loop ?s (map url_item ?us))) [item] = [url_news ''k'']"
    unfolding Let_def by blast+
  then obtain u where "get_news (posted_news_ids (news_loop ?s (map url_item ?us))) [url_item u]
      = [url_news ''k'']"
    by auto
  moreover from this have "u = ''k''"
    using get_news_loop_url_items[of _ "[u]"]
    by (auto simp del: get_news_loop.simps simp add: get_news_def py_slice_upto_10 url_news_def
        split: if_splits)
  ultimately show ?thesis using news unseen by (simp add: url_news_def)
qed

text \<open>
  Claim C8 fails on the code. \<open>get_news\<close> tests each item against the seen-set as it was
  before the cycle, and identifiers are added only while publishing: a feed that carries the
  same identifier twice gets it published twice in that cycle.
\<close>

theorem duplicate_in_batch_published_twice:
  "sent (news_cycles \<lparr>posted_news_ids = {}, sent = []\<rparr> [[url_item ''a'', url_item ''a'']])
     = [url_news ''a'', url_news ''a''] \<and>
   count_list (map n_id (sent (news_cycles \<lparr>posted_news_ids = {}, sent = []\<rparr>
     [[url_item ''a'', url_item ''a'']]))) ''a'' = 2"
proof -
  have "get_news {} (map url_item [''a'', ''a'']) = map url_news [''a'', ''a'']"
    by (simp only: get_news_def py_slice_upto_10 get_news_loop_url_items) simp
  then show ?thesis
    by (simp add: news_loop_eq url_news_def)
qed









section \<open>Properties of the options-flow summarizer\<close>












section \<open>Properties of the bar series parser\<close>

lemma parse_bars_ok:
  "map (\<lambda>kv. parse_bar P (snd kv)) items = map Inr bs \<Longrightarrow>
   parse_bars P items (cs, hs, vs) =
     Inr (cs @ map (\<lambda>(c, h, l, v). c) bs,
          hs @ map (\<lambda>(c, h, l, v). (h, l, c)) bs,
          vs @ map (\<lambda>(c, h, l, v). v) bs)"
proof (induction items arbitrary: bs cs hs vs)
  case Nil
  then show ?case by simp
next
  case (Cons kv items)
  obtain t v where kv: "kv = (t, v)" by (cases kv)
  from Cons.prems obtain b bs' where bs: "bs = b # bs'" and b: "parse_bar P v = Inr b"
    and rest: "map (\<lambda>kv. parse_bar P (snd kv)) items = map Inr bs'"
    by (cases bs) (auto simp: kv)
  obtain c h l vol where bq: "b = (c, h, l, vol)" by (cases b)
  show ?case
    by (simp add: kv bs b bq bind_err_def Cons.IH[OF rest])
qed

lemma parse_bars_fail:
  "\<exists>kv \<in> set items. isl (parse_bar P (snd kv)) \<Longrightarrow> isl (parse_bars P items acc)"
proof (induction items arbitrary: acc)
  case Nil
  then show ?case by simp
next
  case (Cons kv items)
  obtain t v where kv: "kv = (t, v)" by (cases kv)
  obtain cs hs vs where acc: "acc = (cs, hs, vs)" by (cases acc)
  show ?case
  proof (cases "parse_bar P v")
    case (Inl e)
    then show ?thesis by (simp add: kv acc bind_err_def)
  next
    case (Inr b)
    with Cons.prems have "\<exists>kv \<in> set items. isl (parse_bar P (snd kv))" by (auto simp: kv)
    from Cons.IH[OF this] show ?thesis
      by (simp add: kv acc Inr bind_err_def split: prod.splits)
  qed
qed

lemma all_bars_ok:
  "\<forall>kv \<in> set items. \<not> isl (parse_bar P (snd kv)) \<Longrightarrow>
   \<exists>bs. map (\<lambda>kv. parse_bar P (snd kv)) items = map Inr bs"
proof (induction items)
  case Nil
  then show ?case by simp
next
  case (Cons kv items)
  then obtain bs where "map (\<lambda>kv. parse_bar P (snd kv)) items = map Inr bs" by auto
  moreover from Cons.prems obtain b where "parse_bar P (snd kv) = Inr b"
    by (cases "parse_bar P (snd kv)") auto
  ultimately have "map (\<lambda>kv. parse_bar P (snd kv)) (kv # items) = map Inr (b # bs)" by simp
  then show ?case by blast
qed

text \<open>The parser on a payload whose series is the dict \<open>entries\<close>.\<close>

lemma parse_intraday_series:
  assumes "dict_get sj ''Time Series (1min)'' JNull = Inr (JDict entries)"
  shows "parse_intraday P sj =
     (if entries = [] then Inr None
      else case parse_bars P (sort_key fst entries) ([], [], []) of
             Inl e \<Rightarrow> Inr None
           | Inr (closes, hlc, vols) \<Rightarrow>
               (case py_getitem closes (- 1) of
                  Inl e \<Rightarrow> Inr None
                | Inr lastc \<Rightarrow> Inr (Some (closes, hlc, vols, lastc))))"
  by (cases entries)
     (simp_all add: parse_intraday_def parse_intraday_try_def assms bind_err_def py_or_def
        split: sum.splits prod.splits)

lemma filter_same_key:
  "distinct (map fst xs) \<Longrightarrow> k \<in> set xs \<Longrightarrow> filter (\<lambda>x. fst k = fst x) xs = [k]"
proof (induction xs)
  case Nil
  then show ?case by simp
next
  case (Cons x xs)
  show ?case
  proof (cases "x = k")
    case True
    with Cons.prems(1) have "fst k \<notin> fst ` set xs" by simp
    then have "\<forall>y \<in> set xs. fst k \<noteq> fst y" by (metis imageI)
    then have "filter (\<lambda>x. fst k = fst x) xs = []" by (simp add: filter_empty_conv)
    with True show ?thesis by simp
  next
    case False
    with Cons.prems have k: "k \<in> set xs" by simp
    with Cons.prems(1) have "fst k \<noteq> fst x" by (metis distinct.simps(2) imageI list.simps(9) set_map)
    with Cons.IH k Cons.prems(1) show ?thesis by simp
  qed
qed

lemma sort_key_perm:
  assumes "distinct (map fst xs)" "mset xs' = mset xs"
  shows "sort_key fst xs' = sort_key fst xs"
proof (rule properties_for_sort_key)
  show "mset (sort_key fst xs) = mset xs'" using assms(2) by simp
  show "sorted (map fst (sort_key fst xs))" by simp
  have d': "distinct (map fst xs')"
    using assms by (metis mset_eq_imp_distinct_iff mset_map)
  have ds: "distinct (map fst (sort_key fst xs))" using assms(1) by (simp add: distinct_map)
  fix k assume k: "k \<in> set (sort_key fst xs)"
  then have "k \<in> set xs'" using assms(2) by (metis set_sort mset_eq_setD)
  then have "filter (\<lambda>x. fst k = fst x) xs' = [k]" using d' by (rule filter_same_key[rotated])
  moreover have "filter (\<lambda>x. fst k = fst x) (sort_key fst xs) = [k]"
    using ds k by (rule filter_same_key)
  ultimately show "filter (\<lambda>x. fst k = fst x) (sort_key fst xs) = filter (\<lambda>x. fst k = fst x) xs'"
    by simp
qed

lemma parse_intraday_good:
  assumes sj: "dict_get sj ''Time Series (1min)'' JNull = Inr (JDict entries)"
    and ne: "entries \<noteq> []"
    and bs: "map (\<lambda>kv. parse_bar P (snd kv)) (sort_key fst entries) = map Inr bs"
  shows "parse_intraday P sj =
     Inr (Some (map (\<lambda>(c, h, l, v). c) bs, map (\<lambda>(c, h, l, v). (h, l, c)) bs,
                map (\<lambda>(c, h, l, v). v) bs, last (map (\<lambda>(c, h, l, v). c) bs)))"
proof -
  from bs have "length bs = length (sort_key fst entries)"
    by (metis length_map)
  with ne have "bs \<noteq> []" by auto
  then have "py_getitem (map (\<lambda>(c, h, l, v). c) bs) (- 1) = Inr (last (map (\<lambda>(c, h, l, v). c) bs))"
    by (intro py_getitem_last) simp
  then show ?thesis
    using ne by (simp add: parse_intraday_series[OF sj] parse_bars_ok[OF bs])
qed

lemma parse_intraday_bad:
  assumes sj: "dict_get sj ''Time Series (1min)'' JNull = Inr (JDict entries)"
    and bad: "\<exists>kv \<in> set entries. isl (parse_bar P (snd kv))"
  shows "parse_intraday P sj = Inr None"
proof -
  from bad have "\<exists>kv \<in> set (sort_key fst entries). isl (parse_bar P (snd kv))" by simp
  then have "isl (parse_bars P (sort_key fst entries) ([], [], []))" by (rule parse_bars_fail)
  then show ?thesis
    by (cases "parse_bars P (sort_key fst entries) ([], [], [])")
       (simp_all add: parse_intraday_series[OF sj])
qed


text \<open>When the parser returns a result, the series was a non-empty dict of good bars.\<close>

lemma parse_intraday_SomeD:
  assumes "parse_intraday P sj = Inr (Some (closes, hlc, vols, lastc))"
  obtains entries bs where "dict_get sj ''Time Series (1min)'' JNull = Inr (JDict entries)"
    and "entries \<noteq> []"
    and "map (\<lambda>kv. parse_bar P (snd kv)) (sort_key fst entries) = map Inr bs"
    and "closes = map (\<lambda>(c, h, l, v). c) bs" and "hlc = map (\<lambda>(c, h, l, v). (h, l, c)) bs"
    and "vols = map (\<lambda>(c, h, l, v). v) bs" and "lastc = last closes"
proof -
  from assms obtain g where g: "dict_get sj ''Time Series (1min)'' JNull = Inr g"
    by (cases "dict_get sj ''Time Series (1min)'' JNull")
       (simp_all add: parse_intraday_def parse_intraday_try_def bind_err_def)
  have tr: "py_truthy g"
    using assms by (auto simp: parse_intraday_def parse_intraday_try_def bind_err_def g py_or_def
        split: if_splits sum.splits)
  then obtain entries where e: "g = JDict entries"
    using assms
    by (cases g) (auto simp: parse_intraday_def parse_intraday_try_def bind_err_def g py_or_def
        split: if_splits sum.splits)
  with tr have ne: "entries \<noteq> []" by simp
  note sj = g[unfolded e]
  have "\<forall>kv \<in> set entries. \<not> isl (parse_bar P (snd kv))"
    using parse_intraday_bad[OF sj, of P] assms by auto
  then have "\<forall>kv \<in> set (sort_key fst entries). \<not> isl (parse_bar P (snd kv))" by simp
  from all_bars_ok[OF this] obtain bs
    where bs: "map (\<lambda>kv. parse_bar P (snd kv)) (sort_key fst entries) = map Inr bs" by blast
  from parse_intraday_good[OF sj ne bs] assms
  have "closes = map (\<lambda>(c, h, l, v). c) bs" "hlc = map (\<lambda>(c, h, l, v). (h, l, c)) bs"
    "vols = map (\<lambda>(c, h, l, v). v) bs" "lastc = last closes"
    by simp_all
  with sj ne bs show ?thesis by (rule that)
qed

lemma sorted_le_last: "sorted xs \<Longrightarrow> x \<in> set xs \<Longrightarrow> x \<le> last xs"
  by (induction xs) auto

lemma parse_intraday_perm:
  assumes "dict_get sj ''Time Series (1min)'' JNull = Inr (JDict entries)"
    and "dict_get sj' ''Time Series (1min)'' JNull = Inr (JDict entries')"
    and "distinct (map fst entries)" and "mset entries' = mset entries"
  shows "parse_intraday P sj' = parse_intraday P sj"
proof -
  from assms(4) have "entries' = [] \<longleftrightarrow> entries = []"
    by (metis mset_zero_iff)
  then show ?thesis
    by (simp add: parse_intraday_series[OF assms(1)] parse_intraday_series[OF assms(2)]
        sort_key_perm[OF assms(3,4)])
qed

lemma parse_intraday_sorted:
  assumes sj: "dict_get sj ''Time Series (1min)'' JNull = Inr (JDict entries)"
    and res: "parse_intraday P sj = Inr (Some (closes, hlc, vols, lastc))"
  shows "\<exists>items. mset items = mset entries \<and> sorted (map fst items) \<and>
           length closes = length items \<and> length hlc = length items \<and>
           length vols = length items \<and>
           (\<forall>i < length items. \<exists>high low.
              parse_bar P (snd (items ! i)) = Inr (closes ! i, high, low, vols ! i) \<and>
              hlc ! i = (high, low, closes ! i)) \<and>
           (\<exists>t v high low vol. (t, v) \<in> set entries \<and> (\<forall>t' \<in> fst ` set entries. t' \<le> t) \<and>
              parse_bar P v = Inr (lastc, high, low, vol))"
proof -
  from res obtain entries0 bs
    where sj0: "dict_get sj ''Time Series (1min)'' JNull = Inr (JDict entries0)"
      and ne0: "entries0 \<noteq> []"
      and bs0: "map (\<lambda>kv. parse_bar P (snd kv)) (sort_key fst entries0) = map Inr bs"
      and out: "closes = map (\<lambda>(c, h, l, v). c) bs" "hlc = map (\<lambda>(c, h, l, v). (h, l, c)) bs"
        "vols = map (\<lambda>(c, h, l, v). v) bs" "lastc = last closes"
    by (rule parse_intraday_SomeD)
  from sj sj0 have [simp]: "entries0 = entries" by simp
  let ?items = "sort_key fst entries"
  from ne0 have ne: "entries \<noteq> []" by simp
  from bs0 have bs: "map (\<lambda>kv. parse_bar P (snd kv)) ?items = map Inr bs" by simp
  then have len: "length bs = length ?items" by (metis length_map)
  have nth: "parse_bar P (snd (?items ! i)) = Inr (bs ! i)" if "i < length ?items" for i
  proof -
    have "map (\<lambda>kv. parse_bar P (snd kv)) ?items ! i = map Inr bs ! i" by (simp only: bs)
    then show ?thesis using that len by simp
  qed
  have bars: "\<exists>high low. parse_bar P (snd (?items ! i)) = Inr (closes ! i, high, low, vols ! i) \<and>
              hlc ! i = (high, low, closes ! i)" if "i < length ?items" for i
  proof -
    obtain c h l v where b: "bs ! i = (c, h, l, v)" by (cases "bs ! i")
    with nth[OF that] that len show ?thesis by (simp add: out)
  qed
  have items_ne: "?items \<noteq> []" using ne by (metis length_0_conv length_sort)
  obtain t v where tv: "last ?items = (t, v)" by (cases "last ?items")
  have mem: "(t, v) \<in> set entries"
    using last_in_set[OF items_ne] tv by simp
  have "\<forall>t' \<in> set (map fst ?items). t' \<le> last (map fst ?items)"
    by (intro ballI sorted_le_last) simp_all
  then have top: "\<forall>t' \<in> fst ` set entries. t' \<le> t"
    by (simp add: last_map[OF items_ne] tv)
  have last_i: "last ?items = ?items ! (length ?items - 1)"
    using items_ne by (rule last_conv_nth)
  have "bs \<noteq> []" using len items_ne by auto
  then have "lastc = closes ! (length ?items - 1)"
    using out len by (simp add: last_conv_nth)
  moreover have lt: "length ?items - 1 < length ?items"
    using items_ne by (metis diff_less length_greater_0_conv zero_less_one)
  moreover from bars[OF lt] obtain high low
    where "parse_bar P (snd (?items ! (length ?items - 1))) =
           Inr (closes ! (length ?items - 1), high, low, vols ! (length ?items - 1))"
    by blast
  moreover have "snd (?items ! (length ?items - 1)) = v"
    using last_i tv by (metis snd_conv)
  ultimately have "\<exists>high low vol. parse_bar P v = Inr (lastc, high, low, vol)"
    by metis
  with mem top have lastp: "\<exists>t v high low vol. (t, v) \<in> set entries \<and>
      (\<forall>t' \<in> fst ` set entries. t' \<le> t) \<and> parse_bar P v = Inr (lastc, high, low, vol)"
    by blast
  have "mset ?items = mset entries" "sorted (map fst ?items)"
    "length closes = length ?items" "length hlc = length ?items" "length vols = length ?items"
    using len by (simp_all add: out)
  with bars lastp show ?thesis by blast
qed

lemma parse_intraday_well_formed:
  assumes sj: "dict_get sj ''Time Series (1min)'' JNull = Inr (JDict entries)"
    and "entries \<noteq> []" "\<forall>kv \<in> set entries. \<not> isl (parse_bar P (snd kv))"
  shows "\<exists>r. parse_intraday P sj = Inr (Some r)"
proof -
  from assms(3) have "\<forall>kv \<in> set (sort_key fst entries). \<not> isl (parse_bar P (snd kv))" by simp
  from all_bars_ok[OF this] obtain bs
    where "map (\<lambda>kv. parse_bar P (snd kv)) (sort_key fst entries) = map Inr bs" by blast
  from parse_intraday_good[OF sj assms(2) this] show ?thesis by blast
qed

text \<open>
  Claim C6. Take a payload whose series is a dict (so no timestamp occurs twice) and a
  payload that holds the same entries in another order. \<open>parse_intraday\<close> returns the same
  on both. If all bars of a non-empty series are good it returns a result, and whenever it
  returns \<open>(closes, hlc, vols, last)\<close> there is an arrangement of the entries in ascending
  timestamp order whose \<open>i\<close>-th bar gives \<open>closes[i]\<close>, \<open>hlc[i]\<close> and \<open>vols[i]\<close>, and \<open>last\<close>
  is the close of a bar whose timestamp is the greatest.
\<close>

theorem parse_intraday_order:
  assumes "dict_get sj ''Time Series (1min)'' JNull = Inr (JDict entries)"
    and "dict_get sj' ''Time Series (1min)'' JNull = Inr (JDict entries')"
    and "distinct (map fst entries)" and "mset entries' = mset entries"
  shows "parse_intraday P sj' = parse_intraday P sj \<and>
     (entries \<noteq> [] \<and> (\<forall>kv \<in> set entries. \<not> isl (parse_bar P (snd kv))) \<longrightarrow>
        (\<exists>r. parse_intraday P sj = Inr (Some r))) \<and>
     (\<forall>closes hlc vols lastc.
        parse_intraday P sj = Inr (Some (closes, hlc, vols, lastc)) \<longrightarrow>
        (\<exists>items. mset items = mset entries \<and> sorted (map fst items) \<and>
           length closes = length items \<and> length hlc = length items \<and>
           length vols = length items \<and>
           (\<forall>i < length items. \<exists>high low.
              parse_bar P (snd (items ! i)) = Inr (closes ! i, high, low, vols ! i) \<and>
              hlc ! i = (high, low, closes ! i)) \<and>
           (\<exists>t v high low vol. (t, v) \<in> set entries \<and> (\<forall>t' \<in> fst ` set entries. t' \<le> t) \<and>
              parse_bar P v = Inr (lastc, high, low, vol))))"
  using parse_intraday_perm[OF assms] parse_intraday_well_formed[OF assms(1)]
    parse_intraday_sorted[OF assms(1)]
  by blast

theorem parse_intraday_order_witness:
  "distinct (map fst [(''09:32'', bar ''11'' ''9'' ''10'' ''200''),
                      (''09:30'', bar ''10'' ''8'' ''9'' ''100''),
                      (''09:31'', bar ''12'' ''10'' ''11'' ''300'')]) \<and>
   mset [(''09:31'', bar ''12'' ''10'' ''11'' ''300''),
         (''09:30'', bar ''10'' ''8'' ''9'' ''100''),
         (''09:32'', bar ''11'' ''9'' ''10'' ''200'')]
   = mset [(''09:32'', bar ''11'' ''9'' ''10'' ''200''),
           (''09:30'', bar ''10'' ''8'' ''9'' ''100''),
           (''09:31'', bar ''12'' ''10'' ''11'' ''300'')] \<and>
   parse_intraday
     [''8'' \<mapsto> 8, ''9'' \<mapsto> 9, ''10'' \<mapsto> 10, ''11'' \<mapsto> 11, ''12'' \<mapsto> 12,
      ''100'' \<mapsto> 100, ''200'' \<mapsto> 200, ''300'' \<mapsto> 300]
     (JDict [(''Time Series (1min)'',
              JDict [(''09:31'', bar ''12'' ''10'' ''11'' ''300''),
                     (''09:30'', bar ''10'' ''8'' ''9'' ''100''),
                     (''09:32'', bar ''11'' ''9'' ''10'' ''200'')])])
   = parse_intraday
     [''8'' \<mapsto> 8, ''9'' \<mapsto> 9, ''10'' \<mapsto> 10, ''11'' \<mapsto> 11, ''12'' \<mapsto> 12,
      ''100'' \<mapsto> 100, ''200'' \<mapsto> 200, ''300'' \<mapsto> 300]
     (JDict [(''Meta Data'', JNull),
             (''Time Series (1min)'',
              JDict [(''09:32'', bar ''11'' ''9'' ''10'' ''200''),
                     (''09:30'', bar ''10'' ''8'' ''9'' ''100''),
                     (''09:31'', bar ''12'' ''10'' ''11'' ''300'')])]) \<and>
   parse_intraday
     [''8'' \<mapsto> 8, ''9'' \<mapsto> 9, ''10'' \<mapsto> 10, ''11'' \<mapsto> 11, ''12'' \<mapsto> 12,
      ''100'' \<mapsto> 100, ''200'' \<mapsto> 200, ''300'' \<mapsto> 300]
     (JDict [(''Meta Data'', JNull),
             (''Time Series (1min)'',
              JDict [(''09:32'', bar ''11'' ''9'' ''10'' ''200''),
                     (''09:30'', bar ''10'' ''8'' ''9'' ''100''),
                     (''09:31'', bar ''12'' ''10'' ''11'' ''300'')])])
   = Inr (Some ([9, 11, 10], [(10, 8, 9), (12, 10, 11), (11, 9, 10)], [100, 300, 200], 10))"
proof -
  let ?P = "[''8'' \<mapsto> 8, ''9'' \<mapsto> 9, ''10'' \<mapsto> 10, ''11'' \<mapsto> 11, ''12'' \<mapsto> 12,
             ''100'' \<mapsto> 100, ''200'' \<mapsto> 200, ''300'' \<mapsto> 300] :: string \<Rightarrow> real option"
  let ?E = "[(''09:32'', bar ''11'' ''9'' ''10'' ''200''),
             (''09:30'', bar ''10'' ''8'' ''9'' ''100''),
             (''09:31'', bar ''12'' ''10'' ''11'' ''300'')]"
  let ?E' = "[(''09:31'', bar ''12'' ''10'' ''11'' ''300''),
              (''09:30'', bar ''10'' ''8'' ''9'' ''100''),
              (''09:32'', bar ''11'' ''9'' ''10'' ''200'')]"
  let ?sj = "JDict [(''Meta Data'', JNull), (''Time Series (1min)'', JDict ?E)]"
  let ?sj' = "JDict [(''Time Series (1min)'', JDict ?E')]"
  have d: "distinct (map fst ?E)" by simp
  have "?E' = rev ?E" by simp
  then have m: "mset ?E' = mset ?E" by (simp only: mset_rev)
  have g: "dict_get ?sj ''Time Series (1min)'' JNull = Inr (JDict ?E)"
    and g': "dict_get ?sj' ''Time Series (1min)'' JNull = Inr (JDict ?E')"
    by simp_all
  have same: "parse_intraday ?P ?sj' = parse_intraday ?P ?sj"
    using parse_intraday_order [OF g g' d m, of ?P] by blast
  have srt: "sort_key fst ?E = [(''09:30'', bar ''10'' ''8'' ''9'' ''100''),
      (''09:31'', bar ''12'' ''10'' ''11'' ''300''), (''09:32'', bar ''11'' ''9'' ''10'' ''200'')]"
    by simp
  have pb: "parse_bar ?P (bar ''10'' ''8'' ''9'' ''100'') = Inr (9, 10, 8, 100)"
    "parse_bar ?P (bar ''12'' ''10'' ''11'' ''300'') = Inr (11, 12, 10, 300)"
    "parse_bar ?P (bar ''11'' ''9'' ''10'' ''200'') = Inr (10, 11, 9, 200)"
    by (simp_all add: parse_bar_def bar_def bind_err_def py_int_of_float_def)
  have "parse_bars ?P (sort_key fst ?E) ([], [], []) =
      Inr ([9, 11, 10], [(10, 8, 9), (12, 10, 11), (11, 9, 10)], [100, 300, 200])"
    by (simp only: srt) (simp add: pb bind_err_def)
  then have val: "parse_intraday ?P ?sj =
      Inr (Some ([9, 11, 10], [(10, 8, 9), (12, 10, 11), (11, 9, 10)], [100, 300, 200], 10))"
    by (simp only: parse_intraday_series[OF g]) (simp add: py_getitem_def)
  from d m same val show ?thesis by blast
qed











end
